theory Spec2Isabelle
  imports Complex_Main "HOL-Library.Log_Nat"
begin

section \<open>Arrays and the library operations the program calls\<close>

text \<open>
  The program works on numeric arrays. A two-dimensional array carries its column count
  beside its rows, so that an array with no rows still has a shape, as the library's arrays
  do; the row count is the number of rows held. Entries are the reals that the arrays'
  64-bit floating-point numbers denote.
\<close>

datatype error = DimensionMismatch | EmptyArgmax | IndexOutOfRange

record matrix =
  ncols :: nat
  entries :: "real list list"

definition nrows :: "matrix \<Rightarrow> nat" where
  "nrows M = length (entries M)"

definition shape :: "matrix \<Rightarrow> nat \<times> nat" where
  "shape M = (nrows M, ncols M)"

text \<open>Every row of an array has the array's column count.\<close>

definition wf_matrix :: "matrix \<Rightarrow> bool" where
  "wf_matrix M = list_all (\<lambda>r. length r = ncols M) (entries M)"

subsection \<open>Rounding\<close>

text \<open>
  The arithmetic of the library that produces array entries, the division in
  \<open>ones(n) / n\<close> and the products and sums of the matrix product, returns the exact result
  rounded to 53 significant bits: to the nearest such number, and on a tie to the one with
  an even last bit. \<open>exponent a\<close> is the integer \<open>e\<close> with \<open>2^e \<le> a < 2^(e+1)\<close> for
  positive \<open>a\<close>, read off the bit length of the integer part of \<open>a\<close> or of \<open>1 / a\<close>; the
  numbers with this exponent are the multiples of \<open>2^(e - 52)\<close>. The range of the exponent
  is not bounded: overflow to infinity and underflow are not part of the model.
\<close>

definition pow2 :: "int \<Rightarrow> real" where
  "pow2 k = (if 0 \<le> k then 2 ^ nat k else 1 / 2 ^ nat (- k))"

definition exponent :: "real \<Rightarrow> int" where
  "exponent a = (if 1 \<le> a then bitlen \<lfloor>a\<rfloor> - 1 else - bitlen (\<lceil>1 / a\<rceil> - 1))"

definition round_even :: "real \<Rightarrow> int" where
  "round_even t =
     (let f = \<lfloor>t\<rfloor>; d = t - of_int f
      in if d < 1 / 2 then f else if 1 / 2 < d then f + 1 else if even f then f else f + 1)"

definition fl :: "real \<Rightarrow> real" where
  "fl x =
     (if x = 0 then 0
      else let u = pow2 (exponent \<bar>x\<bar> - 52) in of_int (round_even (x / u)) * u)"

subsection \<open>Operations on arrays\<close>

text \<open>
  The inner product of a row and a vector: the products are added one at a time from the
  left, each product and each sum rounded.
\<close>

fun dot_from :: "real \<Rightarrow> real list \<Rightarrow> real list \<Rightarrow> real" where
  "dot_from acc (x # xs) (y # ys) = dot_from (fl (acc + fl (x * y))) xs ys"
| "dot_from acc xs ys = acc"

definition dot :: "real list \<Rightarrow> real list \<Rightarrow> real" where
  "dot r v = (case (r, v) of (x # xs, y # ys) \<Rightarrow> dot_from (fl (x * y)) xs ys | _ \<Rightarrow> 0)"

text \<open>
  The product of a two-dimensional array with a vector: refused when the vector's length
  is not the column count, otherwise one inner product per row.
\<close>

definition matvec :: "matrix \<Rightarrow> real list \<Rightarrow> error + real list" where
  "matvec M v =
     (if ncols M \<noteq> length v then Inl DimensionMismatch
      else Inr (map (\<lambda>r. dot r v) (entries M)))"

text \<open>
  The index of the first largest entry: a scan from the left that keeps the best index and
  value seen so far and replaces them only on a strictly larger entry. An empty vector is
  refused.
\<close>

fun argmax_scan :: "nat \<Rightarrow> real \<Rightarrow> nat \<Rightarrow> real list \<Rightarrow> nat" where
  "argmax_scan bi bv i [] = bi"
| "argmax_scan bi bv i (x # xs) =
     (if bv < x then argmax_scan i x (Suc i) xs else argmax_scan bi bv (Suc i) xs)"

definition argmax :: "real list \<Rightarrow> error + nat" where
  "argmax v = (case v of [] \<Rightarrow> Inl EmptyArgmax | x # xs \<Rightarrow> Inr (argmax_scan 0 x 1 xs))"

text \<open>The vector of \<open>n\<close> ones divided by \<open>n\<close>: each entry is the rounded quotient.\<close>

definition uniform :: "nat \<Rightarrow> real list" where
  "uniform n = replicate n (fl (1 / real n))"

text \<open>
  A vector of \<open>n\<close> zeros with the entry at \<open>i\<close> then set to one; the assignment is
  refused out of range.
\<close>

definition one_hot :: "nat \<Rightarrow> nat \<Rightarrow> error + real list" where
  "one_hot n i = (if i < n then Inr ((replicate n 0)[i := 1]) else Inl IndexOutOfRange)"

text \<open>
  The closeness test of the library, called with the absolute tolerance only, so that the
  relative tolerance keeps its default \<open>1e-5\<close>: entry by entry,
  \<open>|a - b| \<le> atol + rtol * |b|\<close>. The program calls it on vectors of equal length, whose
  entries are 0, 1 or the uniform entry. The test compares the exact values of its two
  sides.
\<close>

definition rtol :: real where
  "rtol = 1 / 100000"

definition isclose :: "real \<Rightarrow> real \<Rightarrow> real \<Rightarrow> bool" where
  "isclose atol a b = (\<bar>a - b\<bar> \<le> atol + rtol * \<bar>b\<bar>)"

definition allclose :: "real list \<Rightarrow> real list \<Rightarrow> real \<Rightarrow> bool" where
  "allclose a b atol = list_all (\<lambda>(x, y). isclose atol x y) (zip a b)"

section \<open>The program on array values\<close>

text \<open>
  The two functions of the program as functions of the values their arguments hold. The
  next section gives them on a store of arrays, with every allocation and every write, and
  the last section shows that the two agree.
\<close>

definition best_response :: "real list \<Rightarrow> matrix \<Rightarrow> error + nat" where
  "best_response strategy payoff_matrix =
     (case matvec payoff_matrix strategy of
        Inl e \<Rightarrow> Inl e
      | Inr v \<Rightarrow> argmax v)"

text \<open>The payoff the program computes for own action \<open>i\<close>: entry \<open>i\<close> of the product.\<close>

definition computed_payoff :: "matrix \<Rightarrow> real list \<Rightarrow> nat \<Rightarrow> real" where
  "computed_payoff M s i = dot (entries M ! i) s"

text \<open>
  The two updates of one round of the loop: player A answers \<open>strategy_b\<close> as it stood
  when the round began, player B answers the vector just built for A.
\<close>

definition nash_round :: "matrix \<Rightarrow> matrix \<Rightarrow> real list \<Rightarrow> error + (real list \<times> real list)" where
  "nash_round payoff_matrix_a payoff_matrix_b strategy_b =
     (case best_response strategy_b payoff_matrix_a of
        Inl e \<Rightarrow> Inl e
      | Inr best_a \<Rightarrow>
          (case one_hot (nrows payoff_matrix_a) best_a of
             Inl e \<Rightarrow> Inl e
           | Inr strategy_a \<Rightarrow>
               (case best_response strategy_a payoff_matrix_b of
                  Inl e \<Rightarrow> Inl e
                | Inr best_b \<Rightarrow>
                    (case one_hot (nrows payoff_matrix_b) best_b of
                       Inl e \<Rightarrow> Inl e
                     | Inr strategy_b' \<Rightarrow> Inr (strategy_a, strategy_b')))))"

text \<open>The test at the end of a round, on the snapshots and the new vectors.\<close>

definition converged :: "real \<Rightarrow> real list \<Rightarrow> real list \<Rightarrow> real list \<Rightarrow> real list \<Rightarrow> bool" where
  "converged tolerance prev_strategy_a strategy_a prev_strategy_b strategy_b =
     (allclose prev_strategy_a strategy_a tolerance \<and>
      allclose prev_strategy_b strategy_b tolerance)"

text \<open>
  The loop. Besides the two strategies the outcome records how many rounds ran and which
  of the loop's two exits was taken: the break after the test, or the end of the range.
\<close>

datatype exit_state = Converged | Exhausted

record outcome =
  rounds :: nat
  exit :: exit_state
  strategy_a :: "real list"
  strategy_b :: "real list"

fun nash_loop ::
  "nat \<Rightarrow> nat \<Rightarrow> matrix \<Rightarrow> matrix \<Rightarrow> real \<Rightarrow> real list \<Rightarrow> real list \<Rightarrow> error + outcome" where
  "nash_loop 0 done A B tolerance sa sb =
     Inr \<lparr>rounds = done, exit = Exhausted, strategy_a = sa, strategy_b = sb\<rparr>"
| "nash_loop (Suc k) done A B tolerance prev_a prev_b =
     (case nash_round A B prev_b of
        Inl e \<Rightarrow> Inl e
      | Inr (sa, sb) \<Rightarrow>
          if converged tolerance prev_a sa prev_b sb
          then Inr \<lparr>rounds = Suc done, exit = Converged, strategy_a = sa, strategy_b = sb\<rparr>
          else nash_loop k (Suc done) A B tolerance sa sb)"

text \<open>The range of the loop is empty for a bound that is zero or negative.\<close>

definition nash_run :: "matrix \<Rightarrow> matrix \<Rightarrow> int \<Rightarrow> real \<Rightarrow> error + outcome" where
  "nash_run payoff_matrix_a payoff_matrix_b max_iterations tolerance =
     nash_loop (nat max_iterations) 0 payoff_matrix_a payoff_matrix_b tolerance
       (uniform (nrows payoff_matrix_a)) (uniform (nrows payoff_matrix_b))"

definition calculate_nash_equilibrium ::
  "matrix \<Rightarrow> matrix \<Rightarrow> int \<Rightarrow> real \<Rightarrow> error + (real list \<times> real list)" where
  "calculate_nash_equilibrium payoff_matrix_a payoff_matrix_b max_iterations tolerance =
     (case nash_run payoff_matrix_a payoff_matrix_b max_iterations tolerance of
        Inl e \<Rightarrow> Inl e
      | Inr r \<Rightarrow> Inr (strategy_a r, strategy_b r))"

text \<open>The pair of strategies of an outcome.\<close>

definition pair_of :: "error + outcome \<Rightarrow> error + (real list \<times> real list)" where
  "pair_of r = (case r of Inl e \<Rightarrow> Inl e | Inr p \<Rightarrow> Inr (strategy_a p, strategy_b p))"

section \<open>The program on a store of arrays\<close>

text \<open>
  The program holds its arrays by reference. A store keeps the vectors and the matrices
  that exist, an array's reference is its index, and a new array takes the next free index.
  Each library operation is given by what it reads, what it allocates and what it writes:
  the product reads its two operands and allocates its result, the scan and the closeness
  test only read, \<open>ones(n)\<close>, the division, \<open>zeros(n)\<close> and \<open>copy\<close> allocate, and the
  indexed assignment writes one entry of one vector.
\<close>

record store =
  vecs :: "real list list"
  mats :: "matrix list"

definition np_matmul :: "store \<Rightarrow> nat \<Rightarrow> nat \<Rightarrow> (error + nat) \<times> store" where
  "np_matmul s m v =
     (case matvec (mats s ! m) (vecs s ! v) of
        Inl e \<Rightarrow> (Inl e, s)
      | Inr w \<Rightarrow> (Inr (length (vecs s)), s\<lparr>vecs := vecs s @ [w]\<rparr>))"

definition np_argmax :: "store \<Rightarrow> nat \<Rightarrow> (error + nat) \<times> store" where
  "np_argmax s v = (argmax (vecs s ! v), s)"

definition np_ones :: "store \<Rightarrow> nat \<Rightarrow> nat \<times> store" where
  "np_ones s n = (length (vecs s), s\<lparr>vecs := vecs s @ [replicate n 1]\<rparr>)"

text \<open>A vector divided by an integer: a new vector of the rounded quotients.\<close>

definition np_divide :: "store \<Rightarrow> nat \<Rightarrow> nat \<Rightarrow> nat \<times> store" where
  "np_divide s v n =
     (length (vecs s), s\<lparr>vecs := vecs s @ [map (\<lambda>x. fl (x / real n)) (vecs s ! v)]\<rparr>)"

definition np_zeros :: "store \<Rightarrow> nat \<Rightarrow> nat \<times> store" where
  "np_zeros s n = (length (vecs s), s\<lparr>vecs := vecs s @ [replicate n 0]\<rparr>)"

definition np_copy :: "store \<Rightarrow> nat \<Rightarrow> nat \<times> store" where
  "np_copy s v = (length (vecs s), s\<lparr>vecs := vecs s @ [vecs s ! v]\<rparr>)"

definition np_setitem :: "store \<Rightarrow> nat \<Rightarrow> nat \<Rightarrow> real \<Rightarrow> (error + unit) \<times> store" where
  "np_setitem s v i x =
     (if i < length (vecs s ! v)
      then (Inr (), s\<lparr>vecs := (vecs s)[v := (vecs s ! v)[i := x]]\<rparr>)
      else (Inl IndexOutOfRange, s))"

definition np_allclose :: "store \<Rightarrow> nat \<Rightarrow> nat \<Rightarrow> real \<Rightarrow> bool" where
  "np_allclose s a b atol = allclose (vecs s ! a) (vecs s ! b) atol"

text \<open>\<open>best_response\<close>: the product, then the scan of the array the product allocated.\<close>

definition best_response_st :: "store \<Rightarrow> nat \<Rightarrow> nat \<Rightarrow> (error + nat) \<times> store" where
  "best_response_st s strategy payoff_matrix =
     (case np_matmul s payoff_matrix strategy of
        (Inl e, s1) \<Rightarrow> (Inl e, s1)
      | (Inr product, s1) \<Rightarrow> np_argmax s1 product)"

text \<open>
  The two updates of a round. \<open>num_strategies_a\<close> and \<open>num_strategies_b\<close> are the row
  counts read before the loop; \<open>ref_a\<close> and \<open>ref_b\<close> are the references that the
  variables \<open>strategy_a\<close> and \<open>strategy_b\<close> hold.
\<close>

definition nash_round_st ::
  "store \<Rightarrow> nat \<Rightarrow> nat \<Rightarrow> nat \<Rightarrow> nat \<Rightarrow> nat \<Rightarrow> (error + nat \<times> nat) \<times> store" where
  "nash_round_st s payoff_matrix_a payoff_matrix_b num_strategies_a num_strategies_b ref_b =
     (case best_response_st s ref_b payoff_matrix_a of
        (Inl e, s1) \<Rightarrow> (Inl e, s1)
      | (Inr best_a, s1) \<Rightarrow>
          (case np_zeros s1 num_strategies_a of
             (ref_a, s2) \<Rightarrow>
               (case np_setitem s2 ref_a best_a 1 of
                  (Inl e, s3) \<Rightarrow> (Inl e, s3)
                | (Inr _, s3) \<Rightarrow>
                    (case best_response_st s3 ref_a payoff_matrix_b of
                       (Inl e, s4) \<Rightarrow> (Inl e, s4)
                     | (Inr best_b, s4) \<Rightarrow>
                         (case np_zeros s4 num_strategies_b of
                            (new_b, s5) \<Rightarrow>
                              (case np_setitem s5 new_b best_b 1 of
                                 (Inl e, s6) \<Rightarrow> (Inl e, s6)
                               | (Inr _, s6) \<Rightarrow> (Inr (ref_a, new_b), s6)))))))"

text \<open>The loop: the two snapshots are copies, the round follows, then the test.\<close>

fun nash_loop_st ::
  "nat \<Rightarrow> store \<Rightarrow> nat \<Rightarrow> nat \<Rightarrow> nat \<Rightarrow> nat \<Rightarrow> real \<Rightarrow> nat \<Rightarrow> nat \<Rightarrow>
     (error + nat \<times> nat) \<times> store" where
  "nash_loop_st 0 s A B n_a n_b tolerance ref_a ref_b = (Inr (ref_a, ref_b), s)"
| "nash_loop_st (Suc k) s A B n_a n_b tolerance ref_a ref_b =
     (case np_copy s ref_a of
        (prev_a, s1) \<Rightarrow>
          (case np_copy s1 ref_b of
             (prev_b, s2) \<Rightarrow>
               (case nash_round_st s2 A B n_a n_b ref_b of
                  (Inl e, s3) \<Rightarrow> (Inl e, s3)
                | (Inr (new_a, new_b), s3) \<Rightarrow>
                    if np_allclose s3 prev_a new_a tolerance \<and>
                       np_allclose s3 prev_b new_b tolerance
                    then (Inr (new_a, new_b), s3)
                    else nash_loop_st k s3 A B n_a n_b tolerance new_a new_b)))"

definition calculate_nash_equilibrium_st ::
  "store \<Rightarrow> nat \<Rightarrow> nat \<Rightarrow> int \<Rightarrow> real \<Rightarrow> (error + nat \<times> nat) \<times> store" where
  "calculate_nash_equilibrium_st s payoff_matrix_a payoff_matrix_b max_iterations tolerance =
     (let num_strategies_a = nrows (mats s ! payoff_matrix_a);
          num_strategies_b = nrows (mats s ! payoff_matrix_b)
      in case np_ones s num_strategies_a of
           (ones_a, s1) \<Rightarrow>
             (case np_divide s1 ones_a num_strategies_a of
                (ref_a, s2) \<Rightarrow>
                  (case np_ones s2 num_strategies_b of
                     (ones_b, s3) \<Rightarrow>
                       (case np_divide s3 ones_b num_strategies_b of
                          (ref_b, s4) \<Rightarrow>
                            nash_loop_st (nat max_iterations) s4 payoff_matrix_a payoff_matrix_b
                              num_strategies_a num_strategies_b tolerance ref_a ref_b))))"

text \<open>The two vectors a call returns, read in the store it leaves.\<close>

definition returned_values :: "(error + nat \<times> nat) \<times> store \<Rightarrow> error + (real list \<times> real list)" where
  "returned_values r =
     (case fst r of
        Inl e \<Rightarrow> Inl e
      | Inr (a, b) \<Rightarrow> Inr (vecs (snd r) ! a, vecs (snd r) ! b))"

text \<open>
  A store \<open>s'\<close> keeps a store \<open>s\<close> when the matrices are the same and every vector of
  \<open>s\<close> stands unchanged at its index in \<open>s'\<close>.
\<close>

definition keeps :: "store \<Rightarrow> store \<Rightarrow> bool" where
  "keeps s s' = (mats s' = mats s \<and> take (length (vecs s)) (vecs s') = vecs s)"

text \<open>The two matrices of the demonstration and the default arguments.\<close>

definition demo_a :: matrix where
  "demo_a = \<lparr>ncols = 2, entries = [[3, 0], [5, 1]]\<rparr>"

definition demo_b :: matrix where
  "demo_b = \<lparr>ncols = 2, entries = [[3, 5], [0, 1]]\<rparr>"

definition default_max_iterations :: int where
  "default_max_iterations = 1000"

definition default_tolerance :: real where
  "default_tolerance = 1 / 1000000"

section \<open>Notions of the specification\<close>

text \<open>
  The expected payoff of own action \<open>i\<close> against the opponent's strategy \<open>s\<close>, as the
  specification writes it: the sum over the opponent's actions \<open>j\<close> of
  \<open>M[i][j] * s[j]\<close>.
\<close>

definition expected_payoff :: "matrix \<Rightarrow> real list \<Rightarrow> nat \<Rightarrow> real" where
  "expected_payoff M s i = (\<Sum>j<ncols M. entries M ! i ! j * s ! j)"

text \<open>A matrix whose first two rows tie against the uniform strategy.\<close>

definition tie_m :: matrix where
  "tie_m = \<lparr>ncols = 2, entries = [[1, 2], [2, 1], [0, 3]]\<rparr>"

text \<open>
  A matrix whose first two rows have the same exact expected payoff against the uniform
  strategy of three actions.
\<close>

definition tie3 :: matrix where
  "tie3 = \<lparr>ncols = 3, entries = [[5, 7, 0], [3, 9, 0], [0, 0, 0]]\<rparr>"

text \<open>
  Two stores for the examples: they hold the demonstration's matrices at different
  references, and the second holds other arrays besides.
\<close>

definition store1 :: store where
  "store1 = \<lparr>vecs = [[1 / 2, 1 / 2]], mats = [demo_a, demo_b]\<rparr>"

definition store2 :: store where
  "store2 = \<lparr>vecs = [[7, 7, 7], [1 / 2, 1 / 2], [1]], mats = [tie3, demo_b, demo_a]\<rparr>"

text \<open>A one-hot vector: exactly one entry equal to one, every other entry zero.\<close>

definition is_one_hot :: "real list \<Rightarrow> bool" where
  "is_one_hot v = (length (filter (\<lambda>x. x = 1) v) = 1 \<and> list_all (\<lambda>x. x = 0 \<or> x = 1) v)"

text \<open>
  Matching pennies with stake \<open>c\<close>: player A wins on equal actions, player B on
  different ones.
\<close>

definition pennies_a :: "real \<Rightarrow> matrix" where
  "pennies_a c = \<lparr>ncols = 2, entries = [[c, - c], [- c, c]]\<rparr>"

definition pennies_b :: "real \<Rightarrow> matrix" where
  "pennies_b c = \<lparr>ncols = 2, entries = [[- c, c], [c, - c]]\<rparr>"



definition zero2x3 :: matrix where
  "zero2x3 = \<lparr>ncols = 3, entries = [[0, 0, 0], [0, 0, 0]]\<rparr>"

definition empty0x1 :: matrix where
  "empty0x1 = \<lparr>ncols = 1, entries = []\<rparr>"

definition empty1x0 :: matrix where
  "empty1x0 = \<lparr>ncols = 0, entries = [[]]\<rparr>"

definition row1x2 :: matrix where
  "row1x2 = \<lparr>ncols = 2, entries = [[1, 2]]\<rparr>"

definition col2x1 :: matrix where
  "col2x1 = \<lparr>ncols = 1, entries = [[1], [3]]\<rparr>"

section \<open>Rounding keeps sign and size\<close>

lemma pow2_powi: "pow2 k = 2 powi k"
  by (simp add: pow2_def power_int_def power_inverse field_simps)

lemma pow2_pos: "0 < pow2 k"
  by (simp add: pow2_powi)

lemma pow2_shift: "pow2 (k - 52) = pow2 k / 2 ^ 52"
  by (simp add: pow2_powi power_int_diff)

lemma exponent_lower:
  assumes "0 < a"
  shows "pow2 (exponent a) \<le> a"
proof (cases "1 \<le> a")
  case True
  then have pos: "0 < \<lfloor>a\<rfloor>" by linarith
  from bitlen_bounds [OF pos] have "(2::int) ^ nat (bitlen \<lfloor>a\<rfloor> - 1) \<le> \<lfloor>a\<rfloor>" by simp
  then have "real_of_int (2 ^ nat (bitlen \<lfloor>a\<rfloor> - 1)) \<le> real_of_int \<lfloor>a\<rfloor>"
    by (rule of_int_le_iff [THEN iffD2])
  also have "\<dots> \<le> a" by simp
  finally have "(2::real) ^ nat (bitlen \<lfloor>a\<rfloor> - 1) \<le> a" by simp
  moreover have "0 \<le> bitlen \<lfloor>a\<rfloor> - 1" using pos by (simp add: bitlen_alt_def)
  ultimately show ?thesis using True by (simp add: exponent_def pow2_def)
next
  case False
  let ?m = "\<lceil>1 / a\<rceil>"
  let ?b = "bitlen (?m - 1)"
  from False assms have "1 < 1 / a" by (simp add: field_simps)
  then have m: "0 < ?m - 1" by linarith
  from bitlen_bounds [OF m] have "?m - 1 < 2 ^ nat ?b" by simp
  then have mb: "?m \<le> 2 ^ nat ?b" by simp
  have "1 / a \<le> real_of_int ?m" by (rule le_of_int_ceiling)
  also have "\<dots> \<le> real_of_int (2 ^ nat ?b)" using mb by (rule of_int_le_iff [THEN iffD2])
  also have "\<dots> = 2 ^ nat ?b" by simp
  finally have "1 / a \<le> 2 ^ nat ?b" .
  then have le: "1 / 2 ^ nat ?b \<le> a" using assms by (simp add: field_simps)
  have bpos: "0 < ?b" using m by (simp add: bitlen_alt_def)
  show ?thesis using False le bpos by (simp add: exponent_def pow2_def)
qed

lemma exponent_upper:
  assumes "0 < a"
  shows "a < pow2 (exponent a + 1)"
proof (cases "1 \<le> a")
  case True
  then have pos: "0 < \<lfloor>a\<rfloor>" by linarith
  let ?b = "bitlen \<lfloor>a\<rfloor>"
  from bitlen_bounds [OF pos] have "\<lfloor>a\<rfloor> + 1 \<le> 2 ^ nat ?b" by simp
  then have le: "real_of_int (\<lfloor>a\<rfloor> + 1) \<le> real_of_int (2 ^ nat ?b)"
    by (rule of_int_le_iff [THEN iffD2])
  have "a < real_of_int (\<lfloor>a\<rfloor> + 1)" by linarith
  also note le
  also have "real_of_int (2 ^ nat ?b) = 2 ^ nat ?b" by simp
  finally have "a < 2 ^ nat ?b" .
  moreover have "0 \<le> ?b" by (rule bitlen_nonneg)
  ultimately show ?thesis using True by (simp add: exponent_def pow2_def)
next
  case False
  let ?m = "\<lceil>1 / a\<rceil>"
  let ?b = "bitlen (?m - 1)"
  from False assms have "1 < 1 / a" by (simp add: field_simps)
  then have m: "0 < ?m - 1" by linarith
  have bpos: "0 < ?b" using m by (simp add: bitlen_alt_def)
  from bitlen_bounds [OF m] have "2 ^ nat (?b - 1) \<le> ?m - 1" by simp
  then have le: "real_of_int (2 ^ nat (?b - 1)) \<le> real_of_int (?m - 1)"
    by (rule of_int_le_iff [THEN iffD2])
  have "(2::real) ^ nat (?b - 1) = real_of_int (2 ^ nat (?b - 1))" by simp
  also note le
  also have "real_of_int (?m - 1) < 1 / a" by linarith
  finally have "2 ^ nat (?b - 1) < 1 / a" .
  then have lt: "a < 1 / 2 ^ nat (?b - 1)" using assms by (simp add: field_simps)
  show ?thesis
  proof (cases "?b = 1")
    case True
    with lt False show ?thesis by (simp add: exponent_def pow2_def)
  next
    case b: False
    with bpos have "1 - ?b < 0" by simp
    moreover have "nat (- (1 - ?b)) = nat (?b - 1)" by simp
    ultimately show ?thesis using lt False by (simp add: exponent_def pow2_def)
  qed
qed

lemma round_even_minus: "round_even (- t) = - round_even t"
proof (cases "t = of_int \<lfloor>t\<rfloor>")
  case True
  then obtain n :: int where t: "t = of_int n" ..
  have "- t = of_int (- n)" by (simp add: t)
  then have "\<lfloor>- t\<rfloor> = - n" by (metis floor_of_int)
  then show ?thesis by (simp add: round_even_def t)
next
  case False
  have "\<lfloor>- t\<rfloor> = - \<lceil>t\<rceil>" by (simp add: ceiling_def)
  also have "\<lceil>t\<rceil> = \<lfloor>t\<rfloor> + 1" using False by (simp add: ceiling_altdef)
  finally have fl: "\<lfloor>- t\<rfloor> = - \<lfloor>t\<rfloor> - 1" by simp
  define d where "d = t - of_int \<lfloor>t\<rfloor>"
  have d: "0 < d" "d < 1" using False unfolding d_def by (linarith, linarith)
  have d': "- t - of_int (- \<lfloor>t\<rfloor> - 1) = 1 - d" by (simp add: d_def)
  show ?thesis
    unfolding round_even_def Let_def fl d' d_def [symmetric]
    using d by (auto simp: field_simps)
qed

lemma round_even_close: "\<bar>of_int (round_even t) - t\<bar> \<le> 1 / 2"
  unfolding round_even_def Let_def by (auto simp: abs_le_iff)

lemma round_even_pos:
  assumes "1 \<le> t"
  shows "0 < round_even t"
proof -
  have "(0::real) < of_int (round_even t)" using round_even_close [of t] assms by linarith
  then show ?thesis by simp
qed

lemma fl_zero: "fl 0 = 0"
  by (simp add: fl_def)

lemma fl_minus: "fl (- x) = - fl x"
  by (simp add: fl_def Let_def round_even_minus)

lemma fl_scaled:
  assumes "0 < x"
  shows "2 ^ 52 \<le> x / pow2 (exponent \<bar>x\<bar> - 52)"
proof -
  have "pow2 (exponent x) \<le> x" using assms by (rule exponent_lower)
  then show ?thesis using assms pow2_pos [of "exponent x"]
    by (simp add: pow2_shift field_simps)
qed

lemma fl_pos:
  assumes "0 < x"
  shows "0 < fl x"
proof -
  let ?u = "pow2 (exponent \<bar>x\<bar> - 52)"
  have "1 \<le> x / ?u" using fl_scaled [OF assms] by simp
  then have "0 < round_even (x / ?u)" by (rule round_even_pos)
  then show ?thesis using assms pow2_pos [of "exponent \<bar>x\<bar> - 52"]
    by (simp add: fl_def Let_def)
qed

lemma fl_neg: "x < 0 \<Longrightarrow> fl x < 0"
  using fl_pos [of "- x"] by (simp add: fl_minus)

lemma fl_error_pos:
  assumes "0 < x"
  shows "\<bar>fl x - x\<bar> \<le> x / 2 ^ 53"
proof -
  let ?u = "pow2 (exponent \<bar>x\<bar> - 52)"
  let ?r = "real_of_int (round_even (x / ?u))"
  have u: "0 < ?u" by (rule pow2_pos)
  have "fl x - x = (?r - x / ?u) * ?u" using assms u by (simp add: fl_def Let_def field_simps)
  then have "\<bar>fl x - x\<bar> = \<bar>?r - x / ?u\<bar> * ?u" using u by (simp add: abs_mult)
  also have "\<dots> \<le> 1 / 2 * ?u"
    using round_even_close [of "x / ?u"] u by (simp only: mult_le_cancel_right_pos)
  finally have a: "\<bar>fl x - x\<bar> \<le> ?u / 2" by simp
  have "?u * 2 ^ 52 \<le> x" using fl_scaled [OF assms] u by (simp add: field_simps)
  then have "?u / 2 \<le> x / 2 ^ 53" by simp
  with a show ?thesis by linarith
qed

text \<open>The rounded value is within half a unit in the last place: a relative error of at most \<open>2^-53\<close>.\<close>

lemma fl_error: "\<bar>fl x - x\<bar> \<le> \<bar>x\<bar> / 2 ^ 53"
proof (cases "0 < x")
  case True
  then show ?thesis using fl_error_pos [OF True] by simp
next
  case False
  show ?thesis
  proof (cases "x = 0")
    case True
    then show ?thesis by (simp add: fl_zero)
  next
    case nz: False
    with False have "0 < - x" by simp
    from fl_error_pos [OF this] show ?thesis using False by (simp add: fl_minus)
  qed
qed

section \<open>The first largest entry\<close>

lemma argmax_scan_first_max:
  assumes "bi < length pre" and "bv = pre ! bi"
    and "\<forall>k<length pre. pre ! k \<le> bv" and "\<forall>k<bi. pre ! k < bv"
  shows "argmax_scan bi bv (length pre) xs < length (pre @ xs) \<and>
         (\<forall>k<length (pre @ xs). (pre @ xs) ! k \<le> (pre @ xs) ! argmax_scan bi bv (length pre) xs) \<and>
         (\<forall>k<argmax_scan bi bv (length pre) xs. (pre @ xs) ! k < (pre @ xs) ! argmax_scan bi bv (length pre) xs)"
  using assms
proof (induction xs arbitrary: pre bi bv)
  case Nil
  then show ?case by simp
next
  case (Cons x xs)
  let ?pre = "pre @ [x]"
  have app: "pre @ x # xs = ?pre @ xs" by simp
  have len: "Suc (length pre) = length ?pre" by simp
  show ?case
  proof (cases "bv < x")
    case True
    have a1: "length pre < length ?pre" by simp
    have a2: "x = ?pre ! length pre" by simp
    have below: "pre ! k < x" if "k < length pre" for k
    proof -
      from Cons.prems(3) that have "pre ! k \<le> bv" by blast
      with True show ?thesis by simp
    qed
    have a4: "\<forall>k<length pre. ?pre ! k < x"
      using below by (simp add: nth_append)
    have a3: "\<forall>k<length ?pre. ?pre ! k \<le> x"
      using below by (auto simp: nth_append less_Suc_eq intro: less_imp_le)
    have step: "argmax_scan bi bv (length pre) (x # xs) = argmax_scan (length pre) x (length ?pre) xs"
      using True by simp
    from Cons.IH [OF a1 a2 a3 a4] show ?thesis
      unfolding app step .
  next
    case False
    have a1: "bi < length ?pre" using Cons.prems(1) by simp
    have a2: "bv = ?pre ! bi" using Cons.prems(1,2) by (simp add: nth_append)
    have a3: "\<forall>k<length ?pre. ?pre ! k \<le> bv"
      using Cons.prems(3) False by (auto simp: nth_append less_Suc_eq)
    have a4: "\<forall>k<bi. ?pre ! k < bv"
      using Cons.prems(1,4) by (auto simp: nth_append)
    have step: "argmax_scan bi bv (length pre) (x # xs) = argmax_scan bi bv (length ?pre) xs"
      using False by simp
    from Cons.IH [OF a1 a2 a3 a4] show ?thesis
      unfolding app step .
  qed
qed

lemma argmax_first_max:
  assumes "v \<noteq> []"
  shows "\<exists>i. argmax v = Inr i \<and> i < length v \<and> (\<forall>k<length v. v ! k \<le> v ! i) \<and> (\<forall>k<i. v ! k < v ! i)"
proof -
  from assms obtain x xs where v: "v = x # xs" by (cases v) auto
  have "argmax_scan 0 x (length [x]) xs < length ([x] @ xs) \<and>
         (\<forall>k<length ([x] @ xs). ([x] @ xs) ! k \<le> ([x] @ xs) ! argmax_scan 0 x (length [x]) xs) \<and>
         (\<forall>k<argmax_scan 0 x (length [x]) xs. ([x] @ xs) ! k < ([x] @ xs) ! argmax_scan 0 x (length [x]) xs)"
    by (rule argmax_scan_first_max) simp_all
  then show ?thesis by (simp add: v argmax_def)
qed

section \<open>The demonstration's matrices\<close>

text \<open>
  C1 (as the code has it): on the demonstration's matrices with the default bound and
  tolerance the loop leaves by its convergence test in the second round, and the pair
  returned is \<open>([0, 1], [1, 0])\<close>: player A ends on index 1 and player B on index 0.
\<close>

theorem demo_result:
  "nash_run demo_a demo_b default_max_iterations default_tolerance =
     Inr \<lparr>rounds = 2, exit = Converged, strategy_a = [0, 1], strategy_b = [1, 0]\<rparr> \<and>
   calculate_nash_equilibrium demo_a demo_b default_max_iterations default_tolerance =
     Inr ([0, 1], [1, 0])"
  by code_simp

text \<open>
  C1 (as the specification states it) fails: the pair returned on the demonstration's
  matrices is not \<open>([0, 1], [0, 1])\<close>.
\<close>

theorem demo_result_counterexample:
  "calculate_nash_equilibrium demo_a demo_b default_max_iterations default_tolerance \<noteq>
     Inr ([0, 1], [0, 1])"
  by code_simp

section \<open>The best response\<close>

text \<open>
  C2 (as the code has it): for a matrix with at least one row and a strategy as long as the
  matrix has columns, \<open>best_response\<close> returns a row index whose computed payoff, the
  rounded value of the sum of \<open>M[i][j] * s[j]\<close>, is largest, and every row before it has
  a strictly smaller computed payoff: among rows whose computed payoffs tie, the lowest
  index.
\<close>

theorem best_response_first_computed_max:
  assumes "0 < nrows M" and "length s = ncols M"
  shows "\<exists>i. best_response s M = Inr i \<and> i < nrows M \<and>
           (\<forall>k<nrows M. computed_payoff M s k \<le> computed_payoff M s i) \<and>
           (\<forall>k<i. computed_payoff M s k < computed_payoff M s i)"
proof -
  let ?v = "map (\<lambda>r. dot r s) (entries M)"
  have ne: "?v \<noteq> []" using assms(1) by (simp add: nrows_def)
  from argmax_first_max [OF ne] obtain i where
    i: "argmax ?v = Inr i" "i < length ?v" "\<forall>k<length ?v. ?v ! k \<le> ?v ! i" "\<forall>k<i. ?v ! k < ?v ! i"
    by blast
  have len: "length ?v = nrows M" by (simp add: nrows_def)
  have nth: "?v ! k = computed_payoff M s k" if "k < nrows M" for k
    using that by (simp add: nrows_def computed_payoff_def)
  have "best_response s M = Inr i"
    using i(1) assms(2) by (simp add: best_response_def matvec_def)
  moreover have "i < nrows M" using i(2) len by simp
  moreover have "\<forall>k<nrows M. computed_payoff M s k \<le> computed_payoff M s i"
    using i(2,3) nth len by metis
  moreover have "\<forall>k<i. computed_payoff M s k < computed_payoff M s i"
    using i(2,4) nth len by (metis less_trans)
  ultimately show ?thesis by blast
qed

text \<open>The theorem at a matrix whose rows 0 and 1 tie in the computed payoff: row 0 is returned.\<close>

theorem best_response_first_computed_max_witness:
  "0 < nrows tie_m \<and> length [1 / 2, 1 / 2 :: real] = ncols tie_m \<and>
   computed_payoff tie_m [1 / 2, 1 / 2] 0 = computed_payoff tie_m [1 / 2, 1 / 2] 1 \<and>
   best_response [1 / 2, 1 / 2] tie_m = Inr 0 \<and>
   (\<exists>i. best_response [1 / 2, 1 / 2] tie_m = Inr i \<and> i < nrows tie_m \<and>
           (\<forall>k<nrows tie_m. computed_payoff tie_m [1 / 2, 1 / 2] k \<le> computed_payoff tie_m [1 / 2, 1 / 2] i) \<and>
           (\<forall>k<i. computed_payoff tie_m [1 / 2, 1 / 2] k < computed_payoff tie_m [1 / 2, 1 / 2] i))"
proof -
  have h1: "0 < nrows tie_m" by (simp add: nrows_def tie_m_def)
  have h2: "length [1 / 2, 1 / 2 :: real] = ncols tie_m" by (simp add: tie_m_def)
  have h3: "computed_payoff tie_m [1 / 2, 1 / 2] 0 = computed_payoff tie_m [1 / 2, 1 / 2] 1"
    by code_simp
  have h4: "best_response [1 / 2, 1 / 2] tie_m = Inr 0" by code_simp
  show ?thesis using h1 h2 h3 h4 best_response_first_computed_max [OF h1 h2] by blast
qed

text \<open>
  C2 (as the specification states it) fails: against the uniform strategy of three actions
  rows 0 and 1 of this matrix have the same exact expected payoff, the largest, so the
  smallest maximizing row is 0; the rounded sums differ in the last place and row 1 is
  returned.
\<close>

theorem best_response_first_maximizer_counterexample:
  "wf_matrix tie3 \<and> 0 < nrows tie3 \<and> length (uniform 3) = ncols tie3 \<and>
   expected_payoff tie3 (uniform 3) 0 = expected_payoff tie3 (uniform 3) 1 \<and>
   expected_payoff tie3 (uniform 3) 2 < expected_payoff tie3 (uniform 3) 0 \<and>
   computed_payoff tie3 (uniform 3) 0 < computed_payoff tie3 (uniform 3) 1 \<and>
   best_response (uniform 3) tie3 = Inr 1"
proof -
  have u: "uniform 3 = [fl (1 / 3), fl (1 / 3), fl (1 / 3)]"
    by (simp add: uniform_def numeral_3_eq_3)
  have p: "0 < fl (1 / 3)" by (rule fl_pos) simp
  have e: "expected_payoff tie3 (uniform 3) 0 = 12 * fl (1 / 3)"
    "expected_payoff tie3 (uniform 3) 1 = 12 * fl (1 / 3)"
    "expected_payoff tie3 (uniform 3) 2 = 0"
    unfolding u by (simp_all add: expected_payoff_def tie3_def lessThan_Suc numeral_3_eq_3)
  have c: "wf_matrix tie3 \<and> 0 < nrows tie3 \<and> length (uniform 3) = ncols tie3 \<and>
    computed_payoff tie3 (uniform 3) 0 < computed_payoff tie3 (uniform 3) 1 \<and>
    best_response (uniform 3) tie3 = Inr 1"
    by code_simp
  show ?thesis using c e p by simp
qed

section \<open>Rounds of the loop\<close>

lemma best_response_mismatch:
  "length s \<noteq> ncols M \<Longrightarrow> best_response s M = Inl DimensionMismatch"
  by (auto simp: best_response_def matvec_def)

lemma best_response_returns:
  assumes "ncols M = length s" and "0 < nrows M"
  shows "\<exists>i<nrows M. best_response s M = Inr i"
proof -
  let ?v = "map (\<lambda>r. dot r s) (entries M)"
  have "?v \<noteq> []" using assms(2) by (simp add: nrows_def)
  from argmax_first_max [OF this] obtain i where "argmax ?v = Inr i" "i < length ?v"
    by blast
  then show ?thesis using assms(1) by (auto simp: best_response_def matvec_def nrows_def)
qed

lemma best_response_in_range:
  "best_response s M = Inr i \<Longrightarrow> i < nrows M"
proof -
  assume a: "best_response s M = Inr i"
  let ?v = "map (\<lambda>r. dot r s) (entries M)"
  from a have m: "matvec M s = Inr ?v" and am: "argmax ?v = Inr i"
    by (auto simp: best_response_def matvec_def split: if_splits)
  from am have "?v \<noteq> []" by (auto simp: argmax_def)
  from argmax_first_max [OF this] am show ?thesis by (auto simp: nrows_def)
qed

lemma one_hot_in_range: "i < n \<Longrightarrow> one_hot n i = Inr ((replicate n 0)[i := 1])"
  by (simp add: one_hot_def)

lemma one_hot_length: "one_hot n i = Inr v \<Longrightarrow> length v = n"
  by (auto simp: one_hot_def split: if_splits)

lemma is_one_hot_update:
  assumes "i < n"
  shows "is_one_hot ((replicate n 0)[i := 1])"
proof -
  have eq: "(replicate n (0::real))[i := 1] = replicate i 0 @ 1 # replicate (n - Suc i) 0"
    using assms by (simp add: upd_conv_take_nth_drop min_def)
  show ?thesis unfolding eq is_one_hot_def by (auto simp: list_all_iff)
qed

lemma one_hot_is_one_hot: "one_hot n i = Inr v \<Longrightarrow> is_one_hot v"
  by (auto simp: one_hot_def is_one_hot_update split: if_splits)

lemma nash_round_parts:
  assumes "nash_round A B prev_b = Inr (sa, sb)"
  shows "\<exists>best_a best_b. best_response prev_b A = Inr best_a \<and> one_hot (nrows A) best_a = Inr sa \<and>
           best_response sa B = Inr best_b \<and> one_hot (nrows B) best_b = Inr sb"
  using assms by (auto simp: nash_round_def split: sum.splits)

lemma nash_round_returns:
  assumes "ncols A = length prev_b" and "0 < nrows A" and "ncols B = nrows A" and "0 < nrows B"
  shows "\<exists>sa sb. nash_round A B prev_b = Inr (sa, sb) \<and> length sa = nrows A \<and> length sb = nrows B"
proof -
  from best_response_returns [OF assms(1,2)] obtain i where
    i: "i < nrows A" "best_response prev_b A = Inr i" by blast
  let ?sa = "(replicate (nrows A) (0::real))[i := 1]"
  have la: "ncols B = length ?sa" using assms(3) by simp
  from best_response_returns [OF la assms(4)] obtain j where
    j: "j < nrows B" "best_response ?sa B = Inr j" by blast
  let ?sb = "(replicate (nrows B) (0::real))[j := 1]"
  have "nash_round A B prev_b = Inr (?sa, ?sb)"
    using i j by (simp add: nash_round_def one_hot_in_range)
  then show ?thesis by simp
qed

lemma nash_round_one_hot:
  assumes "nash_round A B prev_b = Inr (sa, sb)"
  shows "is_one_hot sa \<and> is_one_hot sb \<and> length sa = nrows A \<and> length sb = nrows B"
  using nash_round_parts [OF assms] by (auto dest: one_hot_is_one_hot one_hot_length)

lemma nash_loop_step:
  assumes "nash_round A B prev_b = Inr (sa, sb)"
  shows "nash_loop (Suc k) d A B tol prev_a prev_b =
           (if converged tol prev_a sa prev_b sb
            then Inr \<lparr>rounds = Suc d, exit = Converged, strategy_a = sa, strategy_b = sb\<rparr>
            else nash_loop k (Suc d) A B tol sa sb)"
  using assms by simp

lemma nash_loop_error:
  "nash_round A B prev_b = Inl e \<Longrightarrow> nash_loop (Suc k) d A B tol prev_a prev_b = Inl e"
  by simp

lemma nash_loop_one_hot:
  assumes "nash_loop (Suc k) d A B tol prev_a prev_b = Inr r"
  shows "is_one_hot (strategy_a r) \<and> is_one_hot (strategy_b r) \<and>
         length (strategy_a r) = nrows A \<and> length (strategy_b r) = nrows B"
  using assms
proof (induction k arbitrary: d prev_a prev_b)
  case 0
  from 0 obtain sa sb where rd: "nash_round A B prev_b = Inr (sa, sb)"
    by (cases "nash_round A B prev_b") auto
  from 0 have "strategy_a r = sa \<and> strategy_b r = sb"
    unfolding nash_loop_step [OF rd] by (auto split: if_splits)
  with nash_round_one_hot [OF rd] show ?case by simp
next
  case (Suc k)
  from Suc.prems obtain sa sb where rd: "nash_round A B prev_b = Inr (sa, sb)"
    by (cases "nash_round A B prev_b") auto
  show ?case
  proof (cases "converged tol prev_a sa prev_b sb")
    case True
    with Suc.prems have "strategy_a r = sa \<and> strategy_b r = sb"
      unfolding nash_loop_step [OF rd] by auto
    with nash_round_one_hot [OF rd] show ?thesis by simp
  next
    case False
    with Suc.prems have "nash_loop (Suc k) (Suc d) A B tol sa sb = Inr r"
      unfolding nash_loop_step [OF rd] by simp
    then show ?thesis by (rule Suc.IH)
  qed
qed

lemma one_hot_uniform_single:
  assumes "is_one_hot v" and "v = uniform n"
  shows "n = 1"
proof -
  from assms have "length (filter (\<lambda>x. x = 1) (replicate n (fl (1 / real n)))) = 1"
    by (simp add: is_one_hot_def uniform_def)
  then show ?thesis by (auto simp: filter_replicate split: if_splits)
qed

text \<open>
  C5: the two vectors a round produces are one-hot, and with a bound of at least one every
  returned vector is one-hot; a returned vector equals the uniform vector of its player only
  when that player has exactly one action.
\<close>

theorem strategies_one_hot:
  "(nash_round A B prev_b = Inr (sa, sb) \<longrightarrow> is_one_hot sa \<and> is_one_hot sb) \<and>
   (1 \<le> max_iterations \<and> calculate_nash_equilibrium A B max_iterations tol = Inr (ra, rb) \<longrightarrow>
      is_one_hot ra \<and> is_one_hot rb \<and>
      (ra = uniform (nrows A) \<longrightarrow> nrows A = 1) \<and> (rb = uniform (nrows B) \<longrightarrow> nrows B = 1))"
proof (intro conjI impI)
  assume "nash_round A B prev_b = Inr (sa, sb)"
  from nash_round_one_hot [OF this] show "is_one_hot sa" and "is_one_hot sb" by simp_all
next
  assume a: "1 \<le> max_iterations \<and> calculate_nash_equilibrium A B max_iterations tol = Inr (ra, rb)"
  then obtain k where k: "nat max_iterations = Suc k" by (cases "nat max_iterations") auto
  from a obtain r where r: "nash_run A B max_iterations tol = Inr r"
    and ra: "ra = strategy_a r" and rb: "rb = strategy_b r"
    by (auto simp: calculate_nash_equilibrium_def split: sum.splits)
  from r have "nash_loop (Suc k) 0 A B tol (uniform (nrows A)) (uniform (nrows B)) = Inr r"
    by (simp add: nash_run_def k)
  from nash_loop_one_hot [OF this] ra rb
  have oh: "is_one_hot ra" "is_one_hot rb" by simp_all
  show "is_one_hot ra" by (rule oh)
  show "is_one_hot rb" by (rule oh)
  { assume "ra = uniform (nrows A)"
    with oh(1) show "nrows A = 1" by (rule one_hot_uniform_single) }
  { assume "rb = uniform (nrows B)"
    with oh(2) show "nrows B = 1" by (rule one_hot_uniform_single) }
qed

text \<open>
  The demonstration's run: the first round and the returned pair.
\<close>

theorem strategies_one_hot_witness:
  "nash_round demo_a demo_b [1/2, 1/2] = Inr ([0, 1], [1, 0]) \<and>
   (1::int) \<le> 1000 \<and>
   calculate_nash_equilibrium demo_a demo_b 1000 default_tolerance = Inr ([0, 1], [1, 0]) \<and>
   is_one_hot [0, 1] \<and> is_one_hot [1, 0] \<and>
   [0, 1] \<noteq> uniform (nrows demo_a) \<and> [1, 0] \<noteq> uniform (nrows demo_b)"
proof -
  have h1: "nash_round demo_a demo_b [1/2, 1/2] = Inr ([0, 1], [1, 0])"
    by code_simp
  have h2: "calculate_nash_equilibrium demo_a demo_b 1000 default_tolerance = Inr ([0, 1], [1, 0])"
    by code_simp
  have n: "nrows demo_a \<noteq> 1" "nrows demo_b \<noteq> 1" by (simp_all add: nrows_def demo_a_def demo_b_def)
  show ?thesis
    using h1 h2 n strategies_one_hot [where A = demo_a and B = demo_b and prev_b = "[1/2, 1/2]"
        and sa = "[0, 1]" and sb = "[1, 0]" and max_iterations = 1000 and tol = default_tolerance
        and ra = "[0, 1]" and rb = "[1, 0]"]
    by auto
qed

section \<open>The loop\<close>


lemma nash_loop_returns:
  assumes "ncols A = nrows B" and "ncols B = nrows A" and "0 < nrows A" and "0 < nrows B"
    and "length prev_a = nrows A" and "length prev_b = nrows B"
  shows "\<exists>r. nash_loop k d A B tol prev_a prev_b = Inr r \<and>
           d \<le> rounds r \<and> rounds r \<le> d + k \<and>
           (exit r = Exhausted \<longrightarrow> rounds r = d + k) \<and>
           (exit r = Converged \<longrightarrow> d < rounds r) \<and>
           length (strategy_a r) = nrows A \<and> length (strategy_b r) = nrows B"
  using assms(5,6)
proof (induction k arbitrary: d prev_a prev_b)
  case 0
  then show ?case by simp
next
  case (Suc k)
  have "ncols A = length prev_b" using assms(1) Suc.prems(2) by simp
  from nash_round_returns [OF this assms(3) assms(2) assms(4)] obtain sa sb where
    rd: "nash_round A B prev_b = Inr (sa, sb)" and la: "length sa = nrows A" and lb: "length sb = nrows B"
    by blast
  show ?case
  proof (cases "converged tol prev_a sa prev_b sb")
    case True
    then show ?thesis unfolding nash_loop_step [OF rd] using la lb by simp
  next
    case False
    from Suc.IH [OF la lb, of "Suc d"] obtain r where
      r: "nash_loop k (Suc d) A B tol sa sb = Inr r" "Suc d \<le> rounds r" "rounds r \<le> Suc d + k"
        "exit r = Exhausted \<longrightarrow> rounds r = Suc d + k"
        "length (strategy_a r) = nrows A" "length (strategy_b r) = nrows B"
      by blast
    then show ?thesis unfolding nash_loop_step [OF rd] using False by auto
  qed
qed

lemma uniform_length: "length (uniform n) = n"
  by (simp add: uniform_def)

lemma nash_run_returns:
  assumes "ncols A = nrows B" and "ncols B = nrows A" and "0 < nrows A" and "0 < nrows B"
  shows "\<exists>r. nash_run A B max_iterations tol = Inr r \<and>
           rounds r \<le> nat max_iterations \<and>
           (exit r = Exhausted \<longrightarrow> rounds r = nat max_iterations) \<and>
           (exit r = Converged \<longrightarrow> 0 < rounds r) \<and>
           length (strategy_a r) = nrows A \<and> length (strategy_b r) = nrows B"
  using nash_loop_returns [OF assms uniform_length uniform_length, of "nat max_iterations" 0 tol]
  by (auto simp: nash_run_def)

text \<open>
  C4 (as the code has it): for two square matrices of the same size with at least one
  action and a positive bound, the loop returns a result after at most \<open>max_iterations\<close>
  rounds, and it left either by the convergence test or at the end of the range, then after
  exactly \<open>max_iterations\<close> rounds.
\<close>

theorem terminates_within_budget:
  assumes "shape A = (n, n)" and "shape B = (n, n)" and "0 < n" and "0 < max_iterations"
  shows "\<exists>r. nash_run A B max_iterations tol = Inr r \<and>
           rounds r \<le> nat max_iterations \<and>
           (exit r = Converged \<or> exit r = Exhausted \<and> rounds r = nat max_iterations)"
proof -
  from assms(1,2) have s: "ncols A = nrows B" "ncols B = nrows A" by (simp_all add: shape_def)
  from assms(1,2,3) have p: "0 < nrows A" "0 < nrows B" by (simp_all add: shape_def)
  from nash_run_returns [OF s p, of max_iterations tol] obtain r where
    r: "nash_run A B max_iterations tol = Inr r" "rounds r \<le> nat max_iterations"
       "exit r = Exhausted \<longrightarrow> rounds r = nat max_iterations"
    by blast
  then show ?thesis by (cases "exit r") auto
qed

text \<open>
  The demonstration's matrices, both of shape 2 by 2.
\<close>

theorem terminates_within_budget_witness:
  "shape demo_a = (2, 2) \<and> shape demo_b = (2, 2) \<and> (0::nat) < 2 \<and> (0::int) < 1000 \<and>
   (\<exists>r. nash_run demo_a demo_b 1000 default_tolerance = Inr r \<and>
           rounds r \<le> nat 1000 \<and>
           (exit r = Converged \<or> exit r = Exhausted \<and> rounds r = nat 1000))"
proof -
  have h1: "shape demo_a = (2, 2)" by (simp add: shape_def nrows_def demo_a_def)
  have h2: "shape demo_b = (2, 2)" by (simp add: shape_def nrows_def demo_b_def)
  have h3: "(0::nat) < 2" by simp
  have h4: "(0::int) < 1000" by simp
  show ?thesis
    using h1 h2 terminates_within_budget [OF h1 h2 h3 h4, of default_tolerance] by simp
qed

text \<open>
  C4 (as the specification states it) fails: two matrices of the same shape 2 by 3 leave
  the first round by the dimension mismatch of the product, which is neither of the two exits.
\<close>

theorem terminates_within_budget_counterexample:
  "wf_matrix zero2x3 \<and> shape zero2x3 = (2, 3) \<and> (0::int) < 1000 \<and>
   nash_run zero2x3 zero2x3 1000 default_tolerance = Inl DimensionMismatch \<and>
   calculate_nash_equilibrium zero2x3 zero2x3 1000 default_tolerance = Inl DimensionMismatch"
  by code_simp

text \<open>
  C10 (as the code has it): for a matrix of shape \<open>m\<close> by \<open>n\<close> for player A and one of
  shape \<open>n\<close> by \<open>m\<close> for player B, with \<open>m\<close> and \<open>n\<close> at least one, every round
  runs without error and the pair returned has lengths \<open>m\<close> and \<open>n\<close>; the two shapes
  need not be equal.
\<close>

theorem no_shape_equality_needed:
  assumes "shape A = (m, n)" and "shape B = (n, m)" and "0 < m" and "0 < n"
  shows "\<exists>sa sb. calculate_nash_equilibrium A B max_iterations tol = Inr (sa, sb) \<and>
           length sa = m \<and> length sb = n"
proof -
  from assms(1,2) have s: "ncols A = nrows B" "ncols B = nrows A" by (simp_all add: shape_def)
  from assms have p: "0 < nrows A" "0 < nrows B" by (simp_all add: shape_def)
  from nash_run_returns [OF s p, of max_iterations tol] obtain r where
    r: "nash_run A B max_iterations tol = Inr r"
       "length (strategy_a r) = nrows A" "length (strategy_b r) = nrows B"
    by blast
  then show ?thesis using assms(1,2) by (simp add: calculate_nash_equilibrium_def shape_def)
qed

text \<open>
  Shapes 1 by 2 and 2 by 1, which differ.
\<close>

theorem no_shape_equality_needed_witness:
  "shape row1x2 = (1, 2) \<and> shape col2x1 = (2, 1) \<and> shape row1x2 \<noteq> shape col2x1 \<and>
   calculate_nash_equilibrium row1x2 col2x1 1000 default_tolerance = Inr ([1], [0, 1]) \<and>
   (\<exists>sa sb. calculate_nash_equilibrium row1x2 col2x1 1000 default_tolerance = Inr (sa, sb) \<and>
           length sa = 1 \<and> length sb = 2)"
proof -
  have h1: "shape row1x2 = (1, 2)" by (simp add: shape_def nrows_def row1x2_def)
  have h2: "shape col2x1 = (2, 1)" by (simp add: shape_def nrows_def col2x1_def)
  have h3: "(0::nat) < 1" by simp
  have h4: "(0::nat) < 2" by simp
  have v: "calculate_nash_equilibrium row1x2 col2x1 1000 default_tolerance = Inr ([1], [0, 1])"
    by code_simp
  show ?thesis
    using h1 h2 v no_shape_equality_needed [OF h1 h2 h3 h4, of 1000 default_tolerance] by simp
qed

text \<open>
  C10 (as the specification states it) fails for \<open>m = 0\<close>: with shapes 0 by 1 and
  1 by 0 the first round asks for the largest entry of an empty product and no pair is
  returned.
\<close>

theorem no_shape_equality_needed_counterexample:
  "wf_matrix empty0x1 \<and> wf_matrix empty1x0 \<and> shape empty0x1 = (0, 1) \<and> shape empty1x0 = (1, 0) \<and>
   calculate_nash_equilibrium empty0x1 empty1x0 1000 default_tolerance = Inl EmptyArgmax"
  by code_simp

lemma nash_loop_rounds:
  assumes "nash_loop k d A B tol prev_a prev_b = Inr r"
  shows "d \<le> rounds r \<and> rounds r \<le> d + k \<and>
         (exit r = Exhausted \<longrightarrow> rounds r = d + k) \<and> (exit r = Converged \<longrightarrow> d < rounds r)"
  using assms
proof (induction k arbitrary: d prev_a prev_b)
  case 0
  then show ?case by auto
next
  case (Suc k)
  from Suc.prems obtain sa sb where rd: "nash_round A B prev_b = Inr (sa, sb)"
    by (cases "nash_round A B prev_b") auto
  show ?case
  proof (cases "converged tol prev_a sa prev_b sb")
    case True
    with Suc.prems show ?thesis unfolding nash_loop_step [OF rd] by auto
  next
    case False
    with Suc.prems have "nash_loop k (Suc d) A B tol sa sb = Inr r"
      unfolding nash_loop_step [OF rd] by simp
    from Suc.IH [OF this] show ?thesis by auto
  qed
qed





section \<open>One round after another\<close>

text \<open>
  A run whose bound is spent without convergence has done exactly what the first rounds of
  a longer run do: the longer run goes on with one more round from the state it left.
\<close>

lemma nash_loop_extend:
  assumes "nash_loop k d A B tol sa sb = Inr p" and "exit p = Exhausted"
  shows "nash_loop (Suc k) d A B tol sa sb =
           nash_loop (Suc 0) (rounds p) A B tol (strategy_a p) (strategy_b p)"
  using assms
proof (induction k arbitrary: d sa sb)
  case 0
  then have "rounds p = d" "strategy_a p = sa" "strategy_b p = sb" by auto
  then show ?case by (simp only:)
next
  case (Suc k)
  from Suc.prems(1) obtain sa' sb' where rd: "nash_round A B sb = Inr (sa', sb')"
    by (cases "nash_round A B sb") auto
  have nc: "\<not> converged tol sa sa' sb sb'"
  proof
    assume "converged tol sa sa' sb sb'"
    with Suc.prems(1) have "exit p = Converged" unfolding nash_loop_step [OF rd] by auto
    with Suc.prems(2) show False by simp
  qed
  with Suc.prems(1) have "nash_loop k (Suc d) A B tol sa' sb' = Inr p"
    unfolding nash_loop_step [OF rd] by simp
  from Suc.IH [OF this Suc.prems(2)]
  have "nash_loop (Suc k) (Suc d) A B tol sa' sb' =
          nash_loop (Suc 0) (rounds p) A B tol (strategy_a p) (strategy_b p)" .
  moreover have "nash_loop (Suc (Suc k)) d A B tol sa sb = nash_loop (Suc k) (Suc d) A B tol sa' sb'"
    using nc by (simp only: nash_loop_step [OF rd] if_False)
  ultimately show ?case by simp
qed

lemma nash_loop_single:
  assumes "nash_loop (Suc 0) d A B tol prev_a prev_b = Inr r"
  shows "rounds r = Suc d \<and> nash_round A B prev_b = Inr (strategy_a r, strategy_b r)"
proof -
  from assms obtain sa sb where rd: "nash_round A B prev_b = Inr (sa, sb)"
    by (cases "nash_round A B prev_b") auto
  from assms have "rounds r = Suc d \<and> strategy_a r = sa \<and> strategy_b r = sb"
    unfolding nash_loop_step [OF rd] by (auto split: if_splits)
  with rd show ?thesis by simp
qed

text \<open>
  C6: let a run of \<open>calculate_nash_equilibrium\<close> with bound \<open>k\<close> spend its bound without
  convergence and leave the pair \<open>p\<close>, the state in which round \<open>k + 1\<close> of a longer run
  begins. Then the run with bound \<open>k + 1\<close> does that round: its vector for player A is the
  one-hot vector at the best response to the \<open>strategy_b\<close> of \<open>p\<close>, the one the previous
  round left, and its vector for player B is the one-hot vector at the best response to this
  new vector of A, not to the \<open>strategy_a\<close> of \<open>p\<close>.
\<close>

theorem round_is_sequential:
  assumes "nash_run A B (int k) tol = Inr p" and "exit p = Exhausted"
    and "nash_run A B (int (Suc k)) tol = Inr r"
  shows "rounds r = Suc k \<and>
         (\<exists>best_a. best_response (strategy_b p) A = Inr best_a \<and>
                    one_hot (nrows A) best_a = Inr (strategy_a r)) \<and>
         (\<exists>best_b. best_response (strategy_a r) B = Inr best_b \<and>
                    one_hot (nrows B) best_b = Inr (strategy_b r)) \<and>
         calculate_nash_equilibrium A B (int (Suc k)) tol = Inr (strategy_a r, strategy_b r)"
proof -
  let ?ua = "uniform (nrows A)" and ?ub = "uniform (nrows B)"
  from assms(1) have p: "nash_loop k 0 A B tol ?ua ?ub = Inr p"
    by (simp only: nash_run_def nat_int)
  from nash_loop_rounds [OF p] assms(2) have rp: "rounds p = k" by simp
  from assms(3) have "nash_loop (Suc k) 0 A B tol ?ua ?ub = Inr r"
    by (simp only: nash_run_def nat_int)
  then have "nash_loop (Suc 0) k A B tol (strategy_a p) (strategy_b p) = Inr r"
    unfolding nash_loop_extend [OF p assms(2)] rp .
  from nash_loop_single [OF this]
  have r: "rounds r = Suc k" "nash_round A B (strategy_b p) = Inr (strategy_a r, strategy_b r)"
    by simp_all
  from nash_round_parts [OF r(2)] r(1) assms(3) show ?thesis
    by (auto simp: calculate_nash_equilibrium_def)
qed

text \<open>
  Matching pennies, first round (\<open>k = 0\<close>): the state \<open>p\<close> is the uniform pair. Against
  the \<open>strategy_a\<close> of \<open>p\<close> player B's best response would be index 0; against A's new
  vector \<open>[1, 0]\<close> it is index 1, and the run returns \<open>[0, 1]\<close> for B.
\<close>

theorem round_is_sequential_witness:
  "nash_run (pennies_a 1) (pennies_b 1) (int 0) default_tolerance =
     Inr \<lparr>rounds = 0, exit = Exhausted, strategy_a = [1 / 2, 1 / 2], strategy_b = [1 / 2, 1 / 2]\<rparr> \<and>
   nash_run (pennies_a 1) (pennies_b 1) (int (Suc 0)) default_tolerance =
     Inr \<lparr>rounds = 1, exit = Exhausted, strategy_a = [1, 0], strategy_b = [0, 1]\<rparr> \<and>
   best_response [1 / 2, 1 / 2] (pennies_a 1) = Inr 0 \<and>
   best_response [1 / 2, 1 / 2] (pennies_b 1) = Inr 0 \<and>
   best_response [1, 0] (pennies_b 1) = Inr 1 \<and>
   calculate_nash_equilibrium (pennies_a 1) (pennies_b 1) (int (Suc 0)) default_tolerance =
     Inr ([1, 0], [0, 1])"
proof -
  let ?p = "\<lparr>rounds = 0, exit = Exhausted, strategy_a = [1 / 2, 1 / 2], strategy_b = [1 / 2, 1 / 2 :: real]\<rparr>"
  let ?r = "\<lparr>rounds = 1, exit = Exhausted, strategy_a = [1, 0], strategy_b = [0, 1 :: real]\<rparr>"
  have h1: "nash_run (pennies_a 1) (pennies_b 1) (int 0) default_tolerance = Inr ?p"
    by code_simp
  have h2: "exit ?p = Exhausted" by simp
  have h3: "nash_run (pennies_a 1) (pennies_b 1) (int (Suc 0)) default_tolerance = Inr ?r"
    by code_simp
  have b: "best_response [1 / 2, 1 / 2] (pennies_a 1) = Inr 0"
    "best_response [1 / 2, 1 / 2] (pennies_b 1) = Inr 0"
    "best_response [1, 0] (pennies_b 1) = Inr 1"
    by code_simp+
  show ?thesis using h1 h3 b round_is_sequential [OF h1 h2 h3] by simp
qed

section \<open>Matching pennies\<close>

lemma dot_pair: "dot [a, b] [x, y] = fl (fl (a * x) + fl (b * y))"
  by (simp add: dot_def)

text \<open>
  The four inner products of a round of matching pennies: zero against the uniform
  strategy, and plus or minus the twice rounded stake against a one-hot strategy.
\<close>

lemma pennies_dot:
  "dot [c, - c] [1 / 2, 1 / 2] = 0" "dot [- c, c] [1 / 2, 1 / 2] = 0"
  "dot [c, - c] [1, 0] = fl (fl c)" "dot [- c, c] [1, 0] = - fl (fl c)"
  "dot [c, - c] [0, 1] = - fl (fl c)" "dot [- c, c] [0, 1] = fl (fl c)"
  by (simp_all add: dot_pair fl_minus fl_zero)

lemma pennies_stake:
  assumes "0 < c"
  shows "0 < fl (fl c)"
  by (rule fl_pos) (rule fl_pos [OF assms])

lemma pennies_round_uniform:
  assumes "0 < c"
  shows "nash_round (pennies_a c) (pennies_b c) [1/2, 1/2] = Inr ([1, 0], [0, 1])"
  using pennies_stake [OF assms]
  by (simp add: nash_round_def best_response_def matvec_def pennies_dot argmax_def one_hot_def
      pennies_a_def pennies_b_def nrows_def)

lemma pennies_round_heads:
  assumes "0 < c"
  shows "nash_round (pennies_a c) (pennies_b c) [1, 0] = Inr ([1, 0], [0, 1])"
  using pennies_stake [OF assms]
  by (simp add: nash_round_def best_response_def matvec_def pennies_dot argmax_def one_hot_def
      pennies_a_def pennies_b_def nrows_def)

lemma pennies_round_tails:
  assumes "0 < c"
  shows "nash_round (pennies_a c) (pennies_b c) [0, 1] = Inr ([0, 1], [1, 0])"
  using pennies_stake [OF assms]
  by (simp add: nash_round_def best_response_def matvec_def pennies_dot argmax_def one_hot_def
      pennies_a_def pennies_b_def nrows_def)

lemma pennies_never_close:
  assumes "tol < 1 / 2"
  shows "\<not> converged tol [1/2, 1/2] [1, 0] [1/2, 1/2] [0, 1]"
    and "\<not> converged tol [1, 0] [0, 1] [0, 1] [1, 0]"
    and "\<not> converged tol [0, 1] [1, 0] [1, 0] [0, 1]"
  using assms by (simp_all add: converged_def allclose_def isclose_def rtol_def)

lemma pennies_cycle:
  assumes "0 < c" and "tol < 1 / 2"
  shows "nash_loop k d (pennies_a c) (pennies_b c) tol [1, 0] [0, 1] =
           Inr \<lparr>rounds = d + k, exit = Exhausted,
                strategy_a = (if even k then [1, 0] else [0, 1]),
                strategy_b = (if even k then [0, 1] else [1, 0])\<rparr> \<and>
         nash_loop k d (pennies_a c) (pennies_b c) tol [0, 1] [1, 0] =
           Inr \<lparr>rounds = d + k, exit = Exhausted,
                strategy_a = (if even k then [0, 1] else [1, 0]),
                strategy_b = (if even k then [1, 0] else [0, 1])\<rparr>"
proof (induction k arbitrary: d)
  case 0
  show ?case by simp
next
  case (Suc k)
  show ?case
    unfolding nash_loop_step [OF pennies_round_tails [OF assms(1)]]
      nash_loop_step [OF pennies_round_heads [OF assms(1)]]
    using pennies_never_close(2,3) [OF assms(2)] Suc.IH [of "Suc d"] by simp
qed

text \<open>
  C9: on matching pennies (any positive stake; stake 1 gives the matrices
  \<open>[[1, -1], [-1, 1]]\<close> and \<open>[[-1, 1], [1, -1]]\<close>), with a tolerance below 1/2 and a
  positive bound, the convergence test passes in no round: the loop returns after exactly
  \<open>max_iterations\<close> rounds by the end of the range, with the one-hot pair of the last
  round.
\<close>

theorem pennies_exhausts_budget:
  assumes "0 < c" and "tol < 1 / 2" and "0 < max_iterations"
  shows "nash_run (pennies_a c) (pennies_b c) max_iterations tol =
           Inr \<lparr>rounds = nat max_iterations, exit = Exhausted,
                strategy_a = (if odd max_iterations then [1, 0] else [0, 1]),
                strategy_b = (if odd max_iterations then [0, 1] else [1, 0])\<rparr> \<and>
         is_one_hot (if odd max_iterations then [1, 0] else [0, 1]) \<and>
         is_one_hot (if odd max_iterations then [0, 1] else [1, 0])"
proof -
  from assms(3) obtain k where k: "nat max_iterations = Suc k" by (cases "nat max_iterations") auto
  have par: "even k \<longleftrightarrow> odd max_iterations"
  proof -
    have "even (nat max_iterations) \<longleftrightarrow> even max_iterations" using assms(3) by (simp add: even_nat_iff)
    then have "odd k \<longleftrightarrow> even max_iterations" by (simp add: k)
    then show ?thesis by blast
  qed
  have half: "fl (1 / 2) = 1 / 2" by code_simp
  have u: "uniform (nrows (pennies_a c)) = [1/2, 1/2]" "uniform (nrows (pennies_b c)) = [1/2, 1/2]"
    by (simp_all add: uniform_def nrows_def pennies_a_def pennies_b_def half)
  have "nash_run (pennies_a c) (pennies_b c) max_iterations tol =
          nash_loop k (Suc 0) (pennies_a c) (pennies_b c) tol [1, 0] [0, 1]"
    unfolding nash_run_def k u nash_loop_step [OF pennies_round_uniform [OF assms(1)]]
    using pennies_never_close(1) [OF assms(2)] by simp
  also have "\<dots> = Inr \<lparr>rounds = Suc 0 + k, exit = Exhausted,
                strategy_a = (if even k then [1, 0] else [0, 1]),
                strategy_b = (if even k then [0, 1] else [1, 0])\<rparr>"
    using pennies_cycle [OF assms(1,2), of k "Suc 0"] by simp
  finally have run: "nash_run (pennies_a c) (pennies_b c) max_iterations tol =
           Inr \<lparr>rounds = nat max_iterations, exit = Exhausted,
                strategy_a = (if odd max_iterations then [1, 0] else [0, 1]),
                strategy_b = (if odd max_iterations then [0, 1] else [1, 0])\<rparr>"
    by (simp add: k par)
  have "is_one_hot [1, 0]" "is_one_hot [0, 1]" by (simp_all add: is_one_hot_def)
  with run show ?thesis by simp
qed

text \<open>
  The default bound and tolerance at stake 1.
\<close>

theorem pennies_exhausts_budget_witness:
  "(0::real) < 1 \<and> default_tolerance < 1 / 2 \<and> 0 < default_max_iterations \<and>
   pennies_a 1 = \<lparr>ncols = 2, entries = [[1, - 1], [- 1, 1]]\<rparr> \<and>
   pennies_b 1 = \<lparr>ncols = 2, entries = [[- 1, 1], [1, - 1]]\<rparr> \<and>
   nash_run (pennies_a 1) (pennies_b 1) default_max_iterations default_tolerance =
     Inr \<lparr>rounds = 1000, exit = Exhausted, strategy_a = [0, 1], strategy_b = [1, 0]\<rparr>"
proof -
  have h1: "(0::real) < 1" by simp
  have h2: "default_tolerance < 1 / 2" by (simp add: default_tolerance_def)
  have h3: "0 < default_max_iterations" by (simp add: default_max_iterations_def)
  have m: "pennies_a 1 = \<lparr>ncols = 2, entries = [[1, - 1], [- 1, 1]]\<rparr>"
    "pennies_b 1 = \<lparr>ncols = 2, entries = [[- 1, 1], [1, - 1]]\<rparr>"
    by (simp_all add: pennies_a_def pennies_b_def)
  have e: "even default_max_iterations" "nat default_max_iterations = 1000"
    by (simp_all add: default_max_iterations_def)
  show ?thesis
    using h1 h2 h3 m pennies_exhausts_budget [OF h1 h2 h3] by (simp add: e)
qed

section \<open>The program on the store\<close>

text \<open>
  The program on the store returns what the program on array values returns, and it leaves
  every array that existed before the call as it was: all it writes are entries of vectors
  it has allocated itself.
\<close>

lemma keeps_refl: "keeps s s"
  by (simp add: keeps_def)

lemma keeps_append: "keeps s (s\<lparr>vecs := vecs s @ ws\<rparr>)"
  by (simp add: keeps_def)

lemma keeps_length: "keeps s s' \<Longrightarrow> length (vecs s) \<le> length (vecs s')"
proof -
  assume "keeps s s'"
  then have "length (take (length (vecs s)) (vecs s')) = length (vecs s)"
    by (simp add: keeps_def)
  then show ?thesis by simp
qed

lemma keeps_nth:
  assumes "keeps s s'" and "v < length (vecs s)"
  shows "vecs s' ! v = vecs s ! v"
proof -
  have "vecs s ! v = take (length (vecs s)) (vecs s') ! v" using assms(1) by (simp add: keeps_def)
  also have "\<dots> = vecs s' ! v" using assms(2) by simp
  finally show ?thesis by simp
qed

lemma keeps_mats: "keeps s s' \<Longrightarrow> mats s' = mats s"
  by (simp add: keeps_def)

lemma keeps_trans:
  assumes "keeps s s'" and "keeps s' s''"
  shows "keeps s s''"
proof -
  have le: "length (vecs s) \<le> length (vecs s')" using assms(1) by (rule keeps_length)
  have "take (length (vecs s)) (vecs s'') =
          take (length (vecs s)) (take (length (vecs s')) (vecs s''))"
    using le by (simp add: min_def)
  also have "\<dots> = take (length (vecs s)) (vecs s')" using assms(2) by (simp add: keeps_def)
  also have "\<dots> = vecs s" using assms(1) by (simp add: keeps_def)
  finally show ?thesis using assms by (simp add: keeps_def)
qed

lemma best_response_st_eq:
  "best_response_st s v m =
     (case matvec (mats s ! m) (vecs s ! v) of
        Inl e \<Rightarrow> (Inl e, s)
      | Inr w \<Rightarrow> (argmax w, s\<lparr>vecs := vecs s @ [w]\<rparr>))"
  by (simp add: best_response_st_def np_matmul_def np_argmax_def split: sum.splits)

lemma best_response_st_value:
  "fst (best_response_st s v m) = best_response (vecs s ! v) (mats s ! m)"
  by (simp add: best_response_st_eq best_response_def split: sum.splits)

lemma best_response_st_keeps: "keeps s (snd (best_response_st s v m))"
  by (simp add: best_response_st_eq keeps_def split: sum.splits)

lemma nash_round_st_refines:
  assumes "n_a = nrows (mats s ! A)" and "n_b = nrows (mats s ! B)"
  shows "returned_values (nash_round_st s A B n_a n_b ref_b) =
           nash_round (mats s ! A) (mats s ! B) (vecs s ! ref_b)"
    and "keeps s (snd (nash_round_st s A B n_a n_b ref_b))"
    and "fst (nash_round_st s A B n_a n_b ref_b) = Inr (a, b) \<Longrightarrow>
           a < length (vecs (snd (nash_round_st s A B n_a n_b ref_b))) \<and>
           b < length (vecs (snd (nash_round_st s A B n_a n_b ref_b)))"
  using assms
  by (auto simp: nash_round_st_def nash_round_def best_response_st_eq best_response_def
      np_zeros_def np_setitem_def one_hot_def returned_values_def keeps_def nth_append
      split: sum.splits prod.splits if_splits)

lemma nash_loop_st_refines:
  assumes "n_a = nrows (mats s ! A)" and "n_b = nrows (mats s ! B)"
    and "ref_a < length (vecs s)" and "ref_b < length (vecs s)"
  shows "returned_values (nash_loop_st k s A B n_a n_b tol ref_a ref_b) =
           pair_of (nash_loop k d (mats s ! A) (mats s ! B) tol (vecs s ! ref_a) (vecs s ! ref_b)) \<and>
         keeps s (snd (nash_loop_st k s A B n_a n_b tol ref_a ref_b))"
  using assms
proof (induction k arbitrary: s ref_a ref_b d)
  case 0
  show ?case by (simp add: returned_values_def pair_of_def keeps_refl)
next
  case (Suc k)
  let ?V = "vecs s"
  let ?s2 = "s\<lparr>vecs := ?V @ [?V ! ref_a, ?V ! ref_b]\<rparr>"
  let ?R = "nash_round_st ?s2 A B n_a n_b ref_b"
  let ?MA = "mats s ! A" and ?MB = "mats s ! B"
  have k2: "keeps s ?s2" by (rule keeps_append)
  have na: "n_a = nrows (mats ?s2 ! A)" and nb: "n_b = nrows (mats ?s2 ! B)"
    using Suc.prems(1,2) by simp_all
  have vb: "vecs ?s2 ! ref_b = ?V ! ref_b" using Suc.prems(4) by (simp add: nth_append)
  have unfold: "nash_loop_st (Suc k) s A B n_a n_b tol ref_a ref_b =
      (case ?R of
         (Inl e, s3) \<Rightarrow> (Inl e, s3)
       | (Inr (new_a, new_b), s3) \<Rightarrow>
           if np_allclose s3 (length ?V) new_a tol \<and> np_allclose s3 (Suc (length ?V)) new_b tol
           then (Inr (new_a, new_b), s3)
           else nash_loop_st k s3 A B n_a n_b tol new_a new_b)"
    using Suc.prems(4) by (simp add: np_copy_def nth_append split: prod.splits sum.splits)
  have rv: "returned_values ?R = nash_round ?MA ?MB (?V ! ref_b)"
    using nash_round_st_refines(1) [OF na nb, of ref_b] vb by simp
  have kR: "keeps ?s2 (snd ?R)" by (rule nash_round_st_refines(2) [OF na nb])
  have ksR: "keeps s (snd ?R)" using k2 kR by (rule keeps_trans)
  show ?case
  proof (cases "fst ?R")
    case (Inl e)
    then have R: "?R = (Inl e, snd ?R)" by (metis prod.collapse)
    have "nash_round ?MA ?MB (?V ! ref_b) = Inl e"
      using rv Inl by (simp add: returned_values_def)
    then have "nash_loop (Suc k) d ?MA ?MB tol (?V ! ref_a) (?V ! ref_b) = Inl e" by simp
    moreover have "nash_loop_st (Suc k) s A B n_a n_b tol ref_a ref_b = (Inl e, snd ?R)"
      unfolding unfold by (subst R) simp
    ultimately show ?thesis using ksR by (simp add: returned_values_def pair_of_def)
  next
    case (Inr ab)
    obtain a b where ab: "ab = (a, b)" by (cases ab)
    let ?s3 = "snd ?R"
    have R: "?R = (Inr (a, b), ?s3)" using Inr ab by (metis prod.collapse)
    have fstR: "fst ?R = Inr (a, b)" using Inr ab by simp
    from nash_round_st_refines(3) [OF na nb fstR]
    have valid: "a < length (vecs ?s3)" "b < length (vecs ?s3)" by simp_all
    have rd: "nash_round ?MA ?MB (?V ! ref_b) = Inr (vecs ?s3 ! a, vecs ?s3 ! b)"
      using rv fstR by (simp add: returned_values_def)
    have pa: "vecs ?s3 ! length ?V = ?V ! ref_a"
      using keeps_nth [OF kR, of "length ?V"] by (simp add: nth_append)
    have pb: "vecs ?s3 ! Suc (length ?V) = ?V ! ref_b"
      using keeps_nth [OF kR, of "Suc (length ?V)"] by (simp add: nth_append)
    have test: "(np_allclose ?s3 (length ?V) a tol \<and> np_allclose ?s3 (Suc (length ?V)) b tol) =
        converged tol (?V ! ref_a) (vecs ?s3 ! a) (?V ! ref_b) (vecs ?s3 ! b)"
      by (simp add: np_allclose_def converged_def pa pb)
    have st: "nash_loop_st (Suc k) s A B n_a n_b tol ref_a ref_b =
        (if converged tol (?V ! ref_a) (vecs ?s3 ! a) (?V ! ref_b) (vecs ?s3 ! b)
         then (Inr (a, b), ?s3)
         else nash_loop_st k ?s3 A B n_a n_b tol a b)"
      unfolding unfold by (subst R) (simp add: test)
    show ?thesis
    proof (cases "converged tol (?V ! ref_a) (vecs ?s3 ! a) (?V ! ref_b) (vecs ?s3 ! b)")
      case True
      then show ?thesis
        unfolding st nash_loop_step [OF rd] using ksR
        by (simp add: returned_values_def pair_of_def)
    next
      case False
      have m3: "mats ?s3 = mats s" using ksR by (rule keeps_mats)
      have na3: "n_a = nrows (mats ?s3 ! A)" and nb3: "n_b = nrows (mats ?s3 ! B)"
        using Suc.prems(1,2) m3 by simp_all
      from Suc.IH [OF na3 nb3 valid, of "Suc d"] m3
      have ih: "returned_values (nash_loop_st k ?s3 A B n_a n_b tol a b) =
            pair_of (nash_loop k (Suc d) ?MA ?MB tol (vecs ?s3 ! a) (vecs ?s3 ! b))"
        and ik: "keeps ?s3 (snd (nash_loop_st k ?s3 A B n_a n_b tol a b))"
        by simp_all
      from False show ?thesis
        unfolding st nash_loop_step [OF rd] using ih keeps_trans [OF ksR ik] by simp
    qed
  qed
qed

lemma calculate_nash_equilibrium_st_refines:
  "returned_values (calculate_nash_equilibrium_st s A B max_iterations tol) =
     calculate_nash_equilibrium (mats s ! A) (mats s ! B) max_iterations tol"
  and "keeps s (snd (calculate_nash_equilibrium_st s A B max_iterations tol))"
proof -
  let ?n_a = "nrows (mats s ! A)" and ?n_b = "nrows (mats s ! B)"
  let ?V = "vecs s"
  let ?s4 = "s\<lparr>vecs := ?V @ [replicate ?n_a 1, uniform ?n_a, replicate ?n_b 1, uniform ?n_b]\<rparr>"
  let ?ra = "Suc (length ?V)" and ?rb = "Suc (Suc (Suc (length ?V)))"
  let ?L = "nash_loop_st (nat max_iterations) ?s4 A B ?n_a ?n_b tol ?ra ?rb"
  have eq: "calculate_nash_equilibrium_st s A B max_iterations tol = ?L"
    by (simp add: calculate_nash_equilibrium_st_def np_ones_def np_divide_def Let_def nth_append
        uniform_def)
  have na: "?n_a = nrows (mats ?s4 ! A)" and nb: "?n_b = nrows (mats ?s4 ! B)" by simp_all
  have va: "?ra < length (vecs ?s4)" and vb: "?rb < length (vecs ?s4)" by simp_all
  from nash_loop_st_refines [OF na nb va vb, of "nat max_iterations" tol 0]
  have r: "returned_values ?L =
      pair_of (nash_loop (nat max_iterations) 0 (mats s ! A) (mats s ! B) tol (uniform ?n_a) (uniform ?n_b))"
    and k: "keeps ?s4 (snd ?L)"
    by (simp_all add: nth_append)
  show "returned_values (calculate_nash_equilibrium_st s A B max_iterations tol) =
     calculate_nash_equilibrium (mats s ! A) (mats s ! B) max_iterations tol"
    unfolding eq r by (simp add: pair_of_def calculate_nash_equilibrium_def nash_run_def)
  have "keeps s ?s4" by (rule keeps_append)
  from keeps_trans [OF this k]
  show "keeps s (snd (calculate_nash_equilibrium_st s A B max_iterations tol))"
    unfolding eq .
qed

text \<open>
  C7: when the strategy's length is not the column count of the payoff matrix,
  \<open>best_response\<close> fails with the dimension mismatch; and in every case the call returns
  what the function on array values returns and leaves every array of the store, the
  strategy and the payoff matrix among them, as it was: the product allocates its result and
  nothing is written.
\<close>

theorem best_response_dimension_error:
  assumes "strategy < length (vecs s)" and "payoff_matrix < length (mats s)"
  shows "(length (vecs s ! strategy) \<noteq> ncols (mats s ! payoff_matrix) \<longrightarrow>
           fst (best_response_st s strategy payoff_matrix) = Inl DimensionMismatch) \<and>
         fst (best_response_st s strategy payoff_matrix) =
           best_response (vecs s ! strategy) (mats s ! payoff_matrix) \<and>
         vecs (snd (best_response_st s strategy payoff_matrix)) ! strategy = vecs s ! strategy \<and>
         mats (snd (best_response_st s strategy payoff_matrix)) ! payoff_matrix =
           mats s ! payoff_matrix \<and>
         keeps s (snd (best_response_st s strategy payoff_matrix))"
proof -
  have k: "keeps s (snd (best_response_st s strategy payoff_matrix))"
    by (rule best_response_st_keeps)
  have v: "fst (best_response_st s strategy payoff_matrix) =
             best_response (vecs s ! strategy) (mats s ! payoff_matrix)"
    by (rule best_response_st_value)
  show ?thesis
    using k v keeps_nth [OF k assms(1)] keeps_mats [OF k]
    by (auto simp: best_response_mismatch)
qed

text \<open>
  A strategy of two entries against a matrix of three columns, in a store that holds other
  arrays besides.
\<close>

theorem best_response_dimension_error_witness:
  "(1::nat) < length (vecs store2) \<and> (0::nat) < length (mats store2) \<and>
   vecs store2 ! 1 = [1 / 2, 1 / 2] \<and> mats store2 ! 0 = tie3 \<and>
   length (vecs store2 ! 1) \<noteq> ncols (mats store2 ! 0) \<and>
   fst (best_response_st store2 1 0) = Inl DimensionMismatch \<and>
   vecs (snd (best_response_st store2 1 0)) ! 1 = [1 / 2, 1 / 2] \<and>
   mats (snd (best_response_st store2 1 0)) ! 0 = tie3 \<and>
   keeps store2 (snd (best_response_st store2 1 0))"
proof -
  have h1: "(1::nat) < length (vecs store2)" by (simp add: store2_def)
  have h2: "(0::nat) < length (mats store2)" by (simp add: store2_def)
  have a: "vecs store2 ! 1 = [1 / 2, 1 / 2]" "mats store2 ! 0 = tie3" by (simp_all add: store2_def)
  have n: "length (vecs store2 ! 1) \<noteq> ncols (mats store2 ! 0)"
    by (simp add: store2_def tie3_def)
  show ?thesis
    using h1 h2 a n best_response_dimension_error [OF h1 h2] by simp
qed

text \<open>
  C8: two calls of \<open>best_response\<close>, in any two stores and on any references, return the
  same value when the two strategies hold equal entries and the two matrices are equal; two
  calls of \<open>calculate_nash_equilibrium\<close>, in any two stores, with the same bound and the
  same tolerance, return equal vectors when the matrices are equal. Nothing else that the
  stores hold, and no reference, has a part in the result: it is the value of the function
  on array values at the two matrices, the bound and the tolerance.
\<close>

theorem deterministic:
  "(vecs s ! strategy = vecs s' ! strategy' \<and> mats s ! payoff_matrix = mats s' ! payoff_matrix' \<longrightarrow>
      fst (best_response_st s strategy payoff_matrix) =
      fst (best_response_st s' strategy' payoff_matrix')) \<and>
   (mats s ! A = mats s' ! A' \<and> mats s ! B = mats s' ! B' \<longrightarrow>
      returned_values (calculate_nash_equilibrium_st s A B max_iterations tolerance) =
      returned_values (calculate_nash_equilibrium_st s' A' B' max_iterations tolerance)) \<and>
   returned_values (calculate_nash_equilibrium_st s A B max_iterations tolerance) =
     calculate_nash_equilibrium (mats s ! A) (mats s ! B) max_iterations tolerance"
  by (simp add: best_response_st_value calculate_nash_equilibrium_st_refines(1))

text \<open>
  The demonstration's inputs in two different stores, at different references.
\<close>

theorem deterministic_witness:
  "store1 \<noteq> store2 \<and>
   vecs store1 ! 0 = vecs store2 ! 1 \<and> mats store1 ! 0 = mats store2 ! 2 \<and>
   mats store1 ! 1 = mats store2 ! 1 \<and>
   fst (best_response_st store1 0 0) = Inr 1 \<and>
   fst (best_response_st store2 1 2) = Inr 1 \<and>
   returned_values (calculate_nash_equilibrium_st store1 0 1 1000 default_tolerance) =
     Inr ([0, 1], [1, 0]) \<and>
   returned_values (calculate_nash_equilibrium_st store2 2 1 1000 default_tolerance) =
     Inr ([0, 1], [1, 0])"
proof -
  have d: "store1 \<noteq> store2" by (simp add: store1_def store2_def)
  have h1: "vecs store1 ! 0 = vecs store2 ! 1 \<and> mats store1 ! 0 = mats store2 ! 2"
    by (simp add: store1_def store2_def)
  have h2: "mats store1 ! 0 = mats store2 ! 2 \<and> mats store1 ! 1 = mats store2 ! 1"
    by (simp add: store1_def store2_def)
  have v1: "fst (best_response_st store1 0 0) = Inr 1" by code_simp
  have m: "mats store1 ! 0 = demo_a" "mats store1 ! 1 = demo_b" by (simp_all add: store1_def)
  have "calculate_nash_equilibrium demo_a demo_b 1000 default_tolerance = Inr ([0, 1], [1, 0])"
    by code_simp
  then have v2: "returned_values (calculate_nash_equilibrium_st store1 0 1 1000 default_tolerance) =
     Inr ([0, 1], [1, 0])"
    by (simp only: calculate_nash_equilibrium_st_refines(1) m)
  from deterministic [of store1 0 store2 1 0 2 0 2 1 1 1000 default_tolerance] h1 h2
  have "fst (best_response_st store1 0 0) = fst (best_response_st store2 1 2)"
    and "returned_values (calculate_nash_equilibrium_st store1 0 1 1000 default_tolerance) =
         returned_values (calculate_nash_equilibrium_st store2 2 1 1000 default_tolerance)"
    by simp_all
  with d h1 h2 v1 v2 show ?thesis by simp
qed

end
